theory Spec2Isabelle
  imports Complex_Main
begin

section \<open>Data model (models.go)\<close>

text \<open>
  \<open>time.Time\<close> is an opaque instant; the server never computes with it, it only stores
  what \<open>time.Now()\<close> returned. The \<open>float64\<close> fields are carried around unchanged (no
  arithmetic is done on them by the server), so they are modelled as reals.
\<close>

type_synonym Time = nat

record Aircraft =
  ICAO :: string
  Callsign :: string
  Latitude :: real
  Longitude :: real
  Altitude :: int
  Speed :: real
  Track :: real
  Timestamp :: Time

record AlertCriteria =
  c_ICAO :: string
  c_Callsign :: string

record Alert =
  a_Aircraft :: Aircraft
  a_Message :: string
  a_Criteria :: AlertCriteria
  a_Timestamp :: Time

section \<open>The environment of the handlers\<close>

text \<open>
  \<open>encoding/json\<close> is a library: decoding a request body and marshalling a value are
  parameters of the model, each of which may fail. A body and a marshalled value are
  byte strings.
\<close>

record Json =
  decodeAircraft :: "string \<Rightarrow> Aircraft option"
  decodeCriteria :: "string \<Rightarrow> AlertCriteria option"
  marshalAircraft :: "Aircraft \<Rightarrow> string option"
  marshalAlert :: "Alert \<Rightarrow> string option"

text \<open>
  The clock: \<open>clk 0\<close> is what the next call of \<open>time.Now()\<close> returns, \<open>clk 1\<close> the call
  after it, and so on. \<open>tick\<close> is the clock after one call.
\<close>

type_synonym Clock = "nat \<Rightarrow> Time"

definition now :: "Clock \<Rightarrow> Time" where
  "now clk = clk 0"

definition tick :: "Clock \<Rightarrow> Clock" where
  "tick clk = (\<lambda>n. clk (Suc n))"

section \<open>The alert log as a Go slice\<close>

text \<open>
  \<open>triggeredAlerts\<close> is a slice: a header (address of the backing array, length,
  capacity) into a memory of arrays. Address 0 is nil. \<open>brk\<close> is the next free address.
  The zero value of \<open>Alert\<close> fills fresh arrays.
\<close>

type_synonym addr = nat

record Slice =
  s_base :: addr
  s_len :: nat
  s_cap :: nat

record Mem =
  arrays :: "addr \<Rightarrow> Alert list"
  brk :: addr

definition zeroAircraft :: Aircraft where
  "zeroAircraft = \<lparr>ICAO = [], Callsign = [], Latitude = 0, Longitude = 0, Altitude = 0,
     Speed = 0, Track = 0, Timestamp = 0\<rparr>"

definition zeroAlert :: Alert where
  "zeroAlert = \<lparr>a_Aircraft = zeroAircraft, a_Message = [],
     a_Criteria = \<lparr>c_ICAO = [], c_Callsign = []\<rparr>, a_Timestamp = 0\<rparr>"

definition nilSlice :: Slice where
  "nilSlice = \<lparr>s_base = 0, s_len = 0, s_cap = 0\<rparr>"

text \<open>The elements a slice denotes: the first \<open>len\<close> cells of its backing array.\<close>

definition elems :: "Mem \<Rightarrow> Slice \<Rightarrow> Alert list" where
  "elems m s = take (s_len s) (arrays m (s_base s))"

text \<open>\<open>make([]Alert, n)\<close>: a fresh array of \<open>n\<close> zero values, length and capacity \<open>n\<close>.\<close>

definition makeSlice :: "Mem \<Rightarrow> nat \<Rightarrow> Mem \<times> Slice" where
  "makeSlice m n =
     (m\<lparr>arrays := (arrays m)(brk m := replicate n zeroAlert), brk := Suc (brk m)\<rparr>,
      \<lparr>s_base = brk m, s_len = n, s_cap = n\<rparr>)"

text \<open>
  \<open>copy(dst, src)\<close>: the first \<open>min (len dst) (len src)\<close> elements of \<open>src\<close> overwrite
  those of \<open>dst\<close>, in \<open>dst\<close>'s backing array.
\<close>

definition copySlice :: "Mem \<Rightarrow> Slice \<Rightarrow> Slice \<Rightarrow> Mem" where
  "copySlice m dst src =
     (let n = min (s_len dst) (s_len src);
          d = arrays m (s_base dst)
      in m\<lparr>arrays := (arrays m)(s_base dst := take n (arrays m (s_base src)) @ drop n d)\<rparr>)"

text \<open>
  \<open>append(s, a)\<close>: with room left the element is written in place into the shared
  backing array; otherwise the runtime allocates a larger array and copies. How much
  larger is the runtime's choice: \<open>slack\<close> gives the spare capacity it adds.
\<close>

definition appendAlert :: "(nat \<Rightarrow> nat) \<Rightarrow> Mem \<Rightarrow> Slice \<Rightarrow> Alert \<Rightarrow> Mem \<times> Slice" where
  "appendAlert slack m s a =
     (if s_len s < s_cap s
      then (m\<lparr>arrays := (arrays m)(s_base s := (arrays m (s_base s))[s_len s := a])\<rparr>,
            s\<lparr>s_len := Suc (s_len s)\<rparr>)
      else (let newcap = Suc (s_len s) + slack (s_cap s)
            in (m\<lparr>arrays := (arrays m)(brk m :=
                     take (s_len s) (arrays m (s_base s)) @ [a]
                       @ replicate (slack (s_cap s)) zeroAlert),
                   brk := Suc (brk m)\<rparr>,
                \<lparr>s_base = brk m, s_len = Suc (s_len s), s_cap = newcap\<rparr>)))"

section \<open>Server state (the globals of main.go)\<close>

record Server =
  alertCriteria :: "AlertCriteria list"
  triggeredAlerts :: Slice
  mem :: Mem

text \<open>The alert log: what \<open>triggeredAlerts\<close> denotes.\<close>

definition alertLog :: "Server \<Rightarrow> Alert list" where
  "alertLog srv = elems (mem srv) (triggeredAlerts srv)"

text \<open>
  The state is well formed when the slice header fits its backing array, which is
  allocated (below \<open>brk\<close>) unless the slice is empty with no capacity.
\<close>

definition slice_ok :: "Mem \<Rightarrow> Slice \<Rightarrow> bool" where
  "slice_ok m s \<longleftrightarrow>
     s_len s \<le> s_cap s \<and> length (arrays m (s_base s)) \<ge> s_cap s \<and> s_base s < brk m"

definition log_ok :: "Mem \<Rightarrow> Slice \<Rightarrow> bool" where
  "log_ok m s \<longleftrightarrow> s_cap s = 0 \<and> s_len s = 0 \<or> slice_ok m s"

definition srv_ok :: "Server \<Rightarrow> bool" where
  "srv_ok srv \<longleftrightarrow> log_ok (mem srv) (triggeredAlerts srv)"

text \<open>
  \<open>main\<close> before the handlers are installed: both globals start nil and the two
  criteria are appended.
\<close>

definition initServer :: Server where
  "initServer =
     \<lparr>alertCriteria = ([] @ [\<lparr>c_ICAO = [], c_Callsign = ''TARGET1''\<rparr>])
                        @ [\<lparr>c_ICAO = ''AABBCC'', c_Callsign = []\<rparr>],
      triggeredAlerts = nilSlice,
      mem = \<lparr>arrays = (\<lambda>_. []), brk = 1\<rparr>\<rparr>"

section \<open>HTTP responses\<close>

datatype json_body =
    JMap "(string \<times> string) list"
  | JCriterion AlertCriteria
  | JAlerts Slice

record Response =
  status :: nat
  body :: json_body

section \<open>POST /api/aircraft\<close>

text \<open>The match flag of one criterion, as the loop body computes it.\<close>

definition criterion_match :: "AlertCriteria \<Rightarrow> Aircraft \<Rightarrow> bool" where
  "criterion_match criterion aircraft =
     (let match = False;
          match = (if c_ICAO criterion \<noteq> [] \<and> c_ICAO criterion = ICAO aircraft
                   then True else match);
          match = (if c_Callsign criterion \<noteq> [] \<and> c_Callsign criterion = Callsign aircraft
                   then True else match)
      in match)"

definition mkAlert :: "Aircraft \<Rightarrow> AlertCriteria \<Rightarrow> Time \<Rightarrow> Alert" where
  "mkAlert aircraft criterion t =
     \<lparr>a_Aircraft = aircraft,
      a_Message = ''Monitored aircraft detected: '' @ Callsign aircraft @ '' ('' @ ICAO aircraft @ '')'',
      a_Criteria = criterion,
      a_Timestamp = t\<rparr>"

definition alertFrame :: "string \<Rightarrow> string" where
  "alertFrame js = ''event: alert\<newline>data: '' @ js @ ''\<newline>\<newline>''"

definition aircraftFrame :: "string \<Rightarrow> string" where
  "aircraftFrame js = ''event: aircraftUpdate\<newline>data: '' @ js @ ''\<newline>\<newline>''"

text \<open>
  The state the handler threads through: the clock, the alert log (header and memory)
  and the messages sent on \<open>hub.broadcast\<close> so far, oldest first.
\<close>

record Ingest =
  i_clock :: Clock
  i_alerts :: Slice
  i_mem :: Mem
  i_sent :: "string list"

text \<open>The \<open>for _, criterion := range alertCriteria\<close> loop.\<close>

fun criteriaLoop :: "Json \<Rightarrow> (nat \<Rightarrow> nat) \<Rightarrow> Aircraft \<Rightarrow> AlertCriteria list \<Rightarrow> Ingest \<Rightarrow> Ingest" where
  "criteriaLoop j slack aircraft [] st = st"
| "criteriaLoop j slack aircraft (criterion # rest) st =
     (if criterion_match criterion aircraft
      then (let alert = mkAlert aircraft criterion (now (i_clock st));
                (m', s') = appendAlert slack (i_mem st) (i_alerts st) alert;
                sent' = (case marshalAlert j alert of
                           None \<Rightarrow> i_sent st
                         | Some alertJSON \<Rightarrow> i_sent st @ [alertFrame alertJSON])
            in criteriaLoop j slack aircraft rest
                 \<lparr>i_clock = tick (i_clock st), i_alerts = s', i_mem = m', i_sent = sent'\<rparr>)
      else criteriaLoop j slack aircraft rest st)"

record Outcome =
  response :: Response
  server :: Server
  clock :: Clock
  sent :: "string list"

definition postAircraft :: "Json \<Rightarrow> (nat \<Rightarrow> nat) \<Rightarrow> Clock \<Rightarrow> string \<Rightarrow> Server \<Rightarrow> Outcome" where
  "postAircraft j slack clk reqBody srv =
     (case decodeAircraft j reqBody of
        None \<Rightarrow>
          \<lparr>response = \<lparr>status = 400, body = JMap [(''error'', ''Invalid aircraft data'')]\<rparr>,
           server = srv, clock = clk, sent = []\<rparr>
      | Some decoded \<Rightarrow>
          (let aircraft = decoded\<lparr>Timestamp := now clk\<rparr>;
               sent0 = (case marshalAircraft j aircraft of
                          None \<Rightarrow> []
                        | Some aircraftUpdateJSON \<Rightarrow> [aircraftFrame aircraftUpdateJSON]);
               st = criteriaLoop j slack aircraft (alertCriteria srv)
                      \<lparr>i_clock = tick clk, i_alerts = triggeredAlerts srv, i_mem = mem srv,
                       i_sent = sent0\<rparr>
           in \<lparr>response = \<lparr>status = 200, body = JMap [(''status'', ''received'')]\<rparr>,
               server = srv\<lparr>triggeredAlerts := i_alerts st, mem := i_mem st\<rparr>,
               clock = i_clock st, sent = i_sent st\<rparr>))"

section \<open>GET /api/alerts\<close>

text \<open>
  The handler returns the header of the slice it built (\<open>alertsToReturn\<close>) and the
  memory it built it in.
\<close>

definition getAlerts :: "Server \<Rightarrow> Response \<times> Server" where
  "getAlerts srv =
     (let (m1, alertsToReturn) = makeSlice (mem srv) (s_len (triggeredAlerts srv));
          m2 = copySlice m1 alertsToReturn (triggeredAlerts srv)
      in (\<lparr>status = 200, body = JAlerts alertsToReturn\<rparr>, srv\<lparr>mem := m2\<rparr>))"

section \<open>POST /api/alert-criteria\<close>

definition postAlertCriteria :: "Json \<Rightarrow> string \<Rightarrow> Server \<Rightarrow> Response \<times> Server" where
  "postAlertCriteria j reqBody srv =
     (case decodeCriteria j reqBody of
        None \<Rightarrow> (\<lparr>status = 400, body = JMap [(''error'', ''Invalid criteria data'')]\<rparr>, srv)
      | Some criterion \<Rightarrow>
          (\<lparr>status = 201, body = JCriterion criterion\<rparr>,
           srv\<lparr>alertCriteria := alertCriteria srv @ [criterion]\<rparr>))"

section \<open>The broadcast hub\<close>

text \<open>
  A \<open>*Client\<close> is an address into a heap of \<open>Client\<close> objects. A client owns its \<open>Send\<close>
  channel (created with it, never reassigned), so the channel's state is kept in the
  object: the buffered messages (oldest first), the capacity given to \<open>make\<close>, and
  whether it has been closed. A message (\<open>[]byte\<close>) is a byte string.
\<close>

type_synonym cref = nat

record Chan =
  buf :: "string list"
  ch_cap :: nat
  closed :: bool

record Client =
  ID :: string
  Send :: Chan

text \<open>The run-time panics the hub's statements can raise.\<close>

datatype panic = CloseOfClosedChannel | SendOnClosedChannel | NilDereference

text \<open>
  \<open>clients\<close> is the field of \<open>Hub\<close>; \<open>objs\<close> is the heap its keys point into. The three
  unbuffered channels of \<open>Hub\<close> carry the requests, which are the events below.
\<close>

record HubState =
  clients :: "cref \<rightharpoonup> bool"
  objs :: "cref \<rightharpoonup> Client"

definition makeChan :: "nat \<Rightarrow> Chan" where
  "makeChan n = \<lparr>buf = [], ch_cap = n, closed = False\<rparr>"

text \<open>\<open>close(ch)\<close> panics on a channel that is closed already.\<close>

definition closeChan :: "Chan \<Rightarrow> panic + Chan" where
  "closeChan ch = (if closed ch then Inl CloseOfClosedChannel else Inr (ch\<lparr>closed := True\<rparr>))"

text \<open>
  \<open>select { case ch <- m: ... default: ... }\<close>: the send is taken when the buffer has
  room (\<open>Some\<close> the channel after it), the default branch otherwise (\<open>None\<close>); a send on
  a closed channel panics.
\<close>

definition trySend :: "Chan \<Rightarrow> string \<Rightarrow> panic + Chan option" where
  "trySend ch m =
     (if closed ch then Inl SendOnClosedChannel
      else if length (buf ch) < ch_cap ch then Inr (Some (ch\<lparr>buf := buf ch @ [m]\<rparr>))
      else Inr None)"

definition newHub :: "(cref \<rightharpoonup> Client) \<Rightarrow> HubState" where
  "newHub heap = \<lparr>clients = Map.empty, objs = heap\<rparr>"

text \<open>The client the \<open>GET /api/events\<close> handler creates for a connection.\<close>

definition newClient :: "string \<Rightarrow> Client" where
  "newClient remoteAddr = \<lparr>ID = remoteAddr, Send = makeChan 256\<rparr>"

text \<open>\<open>case client := <-h.register\<close>\<close>

definition register :: "cref \<Rightarrow> HubState \<Rightarrow> panic + HubState" where
  "register client h =
     (case objs h client of
        None \<Rightarrow> Inl NilDereference
      | Some _ \<Rightarrow> Inr (h\<lparr>clients := (clients h)(client \<mapsto> True)\<rparr>))"

text \<open>\<open>case client := <-h.unregister\<close>\<close>

definition unregister :: "cref \<Rightarrow> HubState \<Rightarrow> panic + HubState" where
  "unregister client h =
     (case clients h client of
        None \<Rightarrow> Inr h
      | Some _ \<Rightarrow>
          (case objs h client of
             None \<Rightarrow> Inl NilDereference
           | Some cl \<Rightarrow>
               (case closeChan (Send cl) of
                  Inl p \<Rightarrow> Inl p
                | Inr ch \<Rightarrow> Inr (h\<lparr>clients := (clients h)(client := None),
                                   objs := (objs h)(client \<mapsto> cl\<lparr>Send := ch\<rparr>)\<rparr>))))"

text \<open>The body of the loop of \<open>case message := <-h.broadcast\<close>, for one client.\<close>

definition sendOrDrop :: "string \<Rightarrow> cref \<Rightarrow> HubState \<Rightarrow> panic + HubState" where
  "sendOrDrop message client h =
     (case objs h client of
        None \<Rightarrow> Inl NilDereference
      | Some cl \<Rightarrow>
          (case trySend (Send cl) message of
             Inl p \<Rightarrow> Inl p
           | Inr (Some ch) \<Rightarrow> Inr (h\<lparr>objs := (objs h)(client \<mapsto> cl\<lparr>Send := ch\<rparr>)\<rparr>)
           | Inr None \<Rightarrow>
               (case closeChan (Send cl) of
                  Inl p \<Rightarrow> Inl p
                | Inr ch \<Rightarrow> Inr (h\<lparr>clients := (clients h)(client := None),
                                   objs := (objs h)(client \<mapsto> cl\<lparr>Send := ch\<rparr>)\<rparr>))))"

text \<open>
  \<open>for client := range h.clients\<close>: the keys are visited in an order the runtime
  chooses, given here as the list \<open>ks\<close>; a key deleted before it is reached is not
  visited.
\<close>

fun broadcastLoop :: "string \<Rightarrow> cref list \<Rightarrow> HubState \<Rightarrow> panic + HubState" where
  "broadcastLoop message [] h = Inr h"
| "broadcastLoop message (client # ks) h =
     (if clients h client = None then broadcastLoop message ks h
      else (case sendOrDrop message client h of
              Inl p \<Rightarrow> Inl p
            | Inr h' \<Rightarrow> broadcastLoop message ks h'))"

text \<open>
  What happens to the hub, one event at a time: the three requests \<open>Hub.run\<close> selects
  on, and a streaming endpoint taking the next message out of its client's queue
  (\<open>message, open := <-client.Send\<close>), which it can do when the queue is not empty.
  A broadcast may visit the registered clients in any order.
\<close>

datatype event = Register cref | Unregister cref | Broadcast string | Receive cref

inductive step :: "HubState \<Rightarrow> event \<Rightarrow> panic + HubState \<Rightarrow> bool" where
  step_register: "step h (Register c) (register c h)"
| step_unregister: "step h (Unregister c) (unregister c h)"
| step_broadcast: "distinct ks \<Longrightarrow> set ks = dom (clients h) \<Longrightarrow>
     step h (Broadcast m) (broadcastLoop m ks h)"
| step_receive: "objs h c = Some cl \<Longrightarrow> buf (Send cl) = m # ms \<Longrightarrow>
     step h (Receive c) (Inr (h\<lparr>objs := (objs h)(c \<mapsto> cl\<lparr>Send := (Send cl)\<lparr>buf := ms\<rparr>\<rparr>)\<rparr>))"

text \<open>
  What the program does to the hub. A streaming endpoint (\<open>GET /api/events\<close>) creates
  its client at an address not in use (\<open>client := &Client{...}\<close>) and then sends it on
  \<open>hub.register\<close>, once: these are the only register requests there are. The second
  component of the state holds the clients that were created and whose register
  request the hub has not processed yet. Unregister requests (the endpoint's deferred
  send), broadcasts and queue reads are taken at any time, for any client; this
  includes every order in which the endpoints and the ingestion handler can send them.
\<close>

datatype action = Create cref string | Request event

definition carry :: "cref set \<Rightarrow> panic + HubState \<Rightarrow> panic + HubState \<times> cref set" where
  "carry P r = (case r of Inl p \<Rightarrow> Inl p | Inr h' \<Rightarrow> Inr (h', P))"

inductive sys_step :: "HubState \<times> cref set \<Rightarrow> action \<Rightarrow> panic + HubState \<times> cref set \<Rightarrow> bool" where
  sys_create: "objs h c = None \<Longrightarrow>
     sys_step (h, P) (Create c remoteAddr)
       (Inr (h\<lparr>objs := (objs h)(c \<mapsto> newClient remoteAddr)\<rparr>, insert c P))"
| sys_register: "c \<in> P \<Longrightarrow> step h (Register c) r \<Longrightarrow>
     sys_step (h, P) (Request (Register c)) (carry (P - {c}) r)"
| sys_unregister: "step h (Unregister c) r \<Longrightarrow>
     sys_step (h, P) (Request (Unregister c)) (carry P r)"
| sys_broadcast: "step h (Broadcast m) r \<Longrightarrow>
     sys_step (h, P) (Request (Broadcast m)) (carry P r)"
| sys_receive: "step h (Receive c) r \<Longrightarrow>
     sys_step (h, P) (Request (Receive c)) (carry P r)"

text \<open>A run stops at the first panic (the process dies).\<close>

inductive sys_run :: "HubState \<times> cref set \<Rightarrow> action list \<Rightarrow> panic + HubState \<times> cref set \<Rightarrow> bool" where
  run_nil: "sys_run s [] (Inr s)"
| run_panic: "sys_step s a (Inl p) \<Longrightarrow> sys_run s (a # acts) (Inl p)"
| run_cons: "sys_step s a (Inr s') \<Longrightarrow> sys_run s' acts r \<Longrightarrow> sys_run s (a # acts) r"

section \<open>Notions used to state the properties\<close>

text \<open>
  The matching rule in the words of the specification: a criterion matches when its
  icao is non-empty and equals the aircraft's, or its callsign is non-empty and equals
  the aircraft's.
\<close>

definition spec_match :: "AlertCriteria \<Rightarrow> Aircraft \<Rightarrow> bool" where
  "spec_match criterion aircraft \<longleftrightarrow>
     (c_ICAO criterion \<noteq> [] \<and> c_ICAO criterion = ICAO aircraft)
     \<or> (c_Callsign criterion \<noteq> [] \<and> c_Callsign criterion = Callsign aircraft)"

text \<open>The alerts one pass of the criteria loop creates, in order, with their clock readings.\<close>

fun newAlerts :: "Aircraft \<Rightarrow> AlertCriteria list \<Rightarrow> Clock \<Rightarrow> Alert list" where
  "newAlerts a [] clk = []"
| "newAlerts a (c # cs) clk =
     (if criterion_match c a then mkAlert a c (now clk) # newAlerts a cs (tick clk)
      else newAlerts a cs clk)"

text \<open>A client that exists and whose queue has not been closed.\<close>

definition openAt :: "HubState \<Rightarrow> cref \<Rightarrow> bool" where
  "openAt h c \<longleftrightarrow> (\<exists>cl. objs h c = Some cl \<and> \<not> closed (Send cl))"

text \<open>Every registered client exists and its queue is open.\<close>

definition hub_inv :: "HubState \<Rightarrow> bool" where
  "hub_inv h \<longleftrightarrow> (\<forall>c. clients h c \<noteq> None \<longrightarrow> openAt h c)"

text \<open>
  A client's queue has room; the client after a message was put on its queue; the
  client after its queue was closed.
\<close>

definition hasRoom :: "Client \<Rightarrow> bool" where
  "hasRoom cl \<longleftrightarrow> length (buf (Send cl)) < ch_cap (Send cl)"

definition delivered :: "string \<Rightarrow> Client \<Rightarrow> Client" where
  "delivered m cl = cl\<lparr>Send := (Send cl)\<lparr>buf := buf (Send cl) @ [m]\<rparr>\<rparr>"

definition dropped :: "Client \<Rightarrow> Client" where
  "dropped cl = cl\<lparr>Send := (Send cl)\<lparr>closed := True\<rparr>\<rparr>"

text \<open>
  The hub's invariant, and the clients awaiting registration are not in the set and
  have an open queue.
\<close>

definition sys_inv :: "HubState \<times> cref set \<Rightarrow> bool" where
  "sys_inv s \<longleftrightarrow>
     hub_inv (fst s) \<and> (\<forall>c \<in> snd s. clients (fst s) c = None \<and> openAt (fst s) c)"

text \<open>
  What a \<open>GET /api/alerts\<close> response holds: the elements of the slice in its body, read
  in the memory the handler left. And a caller overwriting the backing array of that
  slice with any contents \<open>xs\<close>.
\<close>

definition alertsReturned :: "Response \<times> Server \<Rightarrow> Alert list" where
  "alertsReturned r =
     (case body (fst r) of
        JAlerts s \<Rightarrow> elems (mem (snd r)) s
      | JMap kvs \<Rightarrow> []
      | JCriterion c \<Rightarrow> [])"

definition callerWrites :: "Alert list \<Rightarrow> Response \<times> Server \<Rightarrow> Server" where
  "callerWrites xs r =
     (case body (fst r) of
        JAlerts s \<Rightarrow> (snd r)\<lparr>mem := (mem (snd r))\<lparr>arrays := (arrays (mem (snd r)))(s_base s := xs)\<rparr>\<rparr>
      | JMap kvs \<Rightarrow> snd r
      | JCriterion c \<Rightarrow> snd r)"

section \<open>Concrete inputs\<close>

definition exAircraft :: Aircraft where
  "exAircraft = \<lparr>ICAO = ''AABBCC'', Callsign = ''TARGET1'', Latitude = 0, Longitude = 0,
     Altitude = 35000, Speed = 450, Track = 45, Timestamp = 7\<rparr>"

definition exJson :: Json where
  "exJson =
     \<lparr>decodeAircraft = (\<lambda>b. if b = ''ok'' then Some exAircraft else None),
      decodeCriteria = (\<lambda>b. if b = ''{}'' then Some \<lparr>c_ICAO = [], c_Callsign = []\<rparr> else None),
      marshalAircraft = (\<lambda>a. Some (ICAO a)),
      marshalAlert = (\<lambda>al. if c_ICAO (a_Criteria al) = [] then None else Some (a_Message al))\<rparr>"

definition exClock :: Clock where
  "exClock = (\<lambda>n. 100 + n)"

definition exSlack :: "nat \<Rightarrow> nat" where
  "exSlack n = n"

text \<open>
  A hub with two registered clients, the first with a full queue; and the states a
  hub with one client goes through when that client is registered and unregistered.
\<close>

definition exFull :: Client where
  "exFull = \<lparr>ID = ''10.0.0.1:4000'',
     Send = \<lparr>buf = replicate 256 ''tick'', ch_cap = 256, closed = False\<rparr>\<rparr>"

definition exHub :: HubState where
  "exHub = \<lparr>clients = [1 \<mapsto> True, 2 \<mapsto> True],
             objs = [1 \<mapsto> exFull, 2 \<mapsto> newClient ''10.0.0.2:4000'']\<rparr>"

definition exHubAfter :: HubState where
  "exHubAfter = \<lparr>clients = [2 \<mapsto> True],
                  objs = [1 \<mapsto> dropped exFull,
                          2 \<mapsto> delivered ''msg'' (newClient ''10.0.0.2:4000'')]\<rparr>"

definition exReg0 :: HubState where
  "exReg0 = newHub [1 \<mapsto> newClient ''10.0.0.1:4000'']"

definition exReg1 :: HubState where
  "exReg1 = \<lparr>clients = [1 \<mapsto> True], objs = [1 \<mapsto> newClient ''10.0.0.1:4000'']\<rparr>"

definition exReg2 :: HubState where
  "exReg2 = \<lparr>clients = Map.empty, objs = [1 \<mapsto> dropped (newClient ''10.0.0.1:4000'')]\<rparr>"

section \<open>Ingestion: the criteria loop and the alert log\<close>

lemma appendAlert_ok:
  assumes "log_ok m s" and "appendAlert slack m s a = (m', s')"
  shows "slice_ok m' s'" and "elems m' s' = elems m s @ [a]"
proof -
  show "slice_ok m' s'"
    using assms
    by (auto simp: appendAlert_def log_ok_def slice_ok_def Let_def split: if_splits)
  show "elems m' s' = elems m s @ [a]"
    using assms
    by (auto simp: appendAlert_def log_ok_def slice_ok_def Let_def elems_def
          take_Suc_conv_app_nth split: if_splits)
qed

lemma criteriaLoop_spec:
  "log_ok (i_mem st) (i_alerts st) \<Longrightarrow>
   log_ok (i_mem (criteriaLoop j slack a cs st)) (i_alerts (criteriaLoop j slack a cs st))
   \<and> elems (i_mem (criteriaLoop j slack a cs st)) (i_alerts (criteriaLoop j slack a cs st))
       = elems (i_mem st) (i_alerts st) @ newAlerts a cs (i_clock st)
   \<and> i_sent (criteriaLoop j slack a cs st)
       = i_sent st @ map alertFrame (List.map_filter (marshalAlert j) (newAlerts a cs (i_clock st)))"
proof (induction cs arbitrary: st)
  case Nil
  then show ?case by (simp add: List.map_filter_simps)
next
  case (Cons c cs)
  show ?case
  proof (cases "criterion_match c a")
    case False
    then show ?thesis using Cons by simp
  next
    case True
    obtain m' s' where ap: "appendAlert slack (i_mem st) (i_alerts st) (mkAlert a c (now (i_clock st))) = (m', s')"
      by (cases "appendAlert slack (i_mem st) (i_alerts st) (mkAlert a c (now (i_clock st)))") 
    let ?st' = "\<lparr>i_clock = tick (i_clock st), i_alerts = s', i_mem = m',
                 i_sent = (case marshalAlert j (mkAlert a c (now (i_clock st))) of
                           None \<Rightarrow> i_sent st
                         | Some alertJSON \<Rightarrow> i_sent st @ [alertFrame alertJSON])\<rparr>"
    have step: "criteriaLoop j slack a (c # cs) st = criteriaLoop j slack a cs ?st'"
      using True ap by (simp add: Let_def)
    have ok': "log_ok (i_mem ?st') (i_alerts ?st')"
      using appendAlert_ok(1)[OF Cons.prems ap] by (simp add: log_ok_def)
    have el: "elems m' s' = elems (i_mem st) (i_alerts st) @ [mkAlert a c (now (i_clock st))]"
      using appendAlert_ok(2)[OF Cons.prems ap] .
    show ?thesis
      unfolding step using Cons.IH[OF ok'] True el
      by (simp add: List.map_filter_simps split: option.splits)
  qed
qed

lemma criteriaLoop_append:
  "criteriaLoop j slack a (cs @ cs') st = criteriaLoop j slack a cs' (criteriaLoop j slack a cs st)"
  by (induction cs arbitrary: st) (simp_all add: Let_def split: prod.splits)

lemma match_is_spec: "criterion_match c a = spec_match c a"
  by (auto simp: criterion_match_def spec_match_def Let_def)

lemma newAlerts_criteria:
  "map a_Criteria (newAlerts a cs clk) = filter (\<lambda>c. spec_match c a) cs"
  by (induction cs arbitrary: clk) (auto simp: mkAlert_def match_is_spec)

lemma newAlerts_aircraft: "al \<in> set (newAlerts a cs clk) \<Longrightarrow> a_Aircraft al = a"
  by (induction cs arbitrary: clk) (auto simp: mkAlert_def split: if_splits)

text \<open>What a successful ingestion does, in one statement.\<close>

lemma postAircraft_spec:
  assumes "srv_ok srv" and "decodeAircraft j reqBody = Some decoded"
  shows "srv_ok (server (postAircraft j slack clk reqBody srv))"
    and "alertLog (server (postAircraft j slack clk reqBody srv))
           = alertLog srv @ newAlerts (decoded\<lparr>Timestamp := now clk\<rparr>) (alertCriteria srv) (tick clk)"
    and "sent (postAircraft j slack clk reqBody srv)
           = (case marshalAircraft j (decoded\<lparr>Timestamp := now clk\<rparr>) of
                None \<Rightarrow> [] | Some js \<Rightarrow> [aircraftFrame js])
             @ map alertFrame (List.map_filter (marshalAlert j)
                 (newAlerts (decoded\<lparr>Timestamp := now clk\<rparr>) (alertCriteria srv) (tick clk)))"
    and "alertCriteria (server (postAircraft j slack clk reqBody srv)) = alertCriteria srv"
proof -
  define a where "a = decoded\<lparr>Timestamp := now clk\<rparr>"
  define st0 where "st0 = \<lparr>i_clock = tick clk, i_alerts = triggeredAlerts srv, i_mem = mem srv,
               i_sent = (case marshalAircraft j a of None \<Rightarrow> []
                         | Some aircraftUpdateJSON \<Rightarrow> [aircraftFrame aircraftUpdateJSON])\<rparr>"
  define st where "st = criteriaLoop j slack a (alertCriteria srv) st0"
  have ok0: "log_ok (i_mem st0) (i_alerts st0)"
    using assms(1) by (simp add: srv_ok_def st0_def)
  have L1: "log_ok (i_mem st) (i_alerts st)"
    and L2: "elems (i_mem st) (i_alerts st) = elems (i_mem st0) (i_alerts st0) @ newAlerts a (alertCriteria srv) (i_clock st0)"
    and L3: "i_sent st = i_sent st0 @ map alertFrame (List.map_filter (marshalAlert j) (newAlerts a (alertCriteria srv) (i_clock st0)))"
    using criteriaLoop_spec[OF ok0, of j slack a "alertCriteria srv"] unfolding st_def by blast+
  have out: "postAircraft j slack clk reqBody srv =
      \<lparr>response = \<lparr>status = 200, body = JMap [(''status'', ''received'')]\<rparr>,
       server = srv\<lparr>triggeredAlerts := i_alerts st, mem := i_mem st\<rparr>,
       clock = i_clock st, sent = i_sent st\<rparr>"
    using assms(2) by (simp add: postAircraft_def Let_def st_def st0_def a_def)
  show "srv_ok (server (postAircraft j slack clk reqBody srv))"
    using L1 by (simp add: out srv_ok_def)
  show "alertLog (server (postAircraft j slack clk reqBody srv))
           = alertLog srv @ newAlerts (decoded\<lparr>Timestamp := now clk\<rparr>) (alertCriteria srv) (tick clk)"
    using L2 by (simp add: out alertLog_def st0_def a_def)
  show "sent (postAircraft j slack clk reqBody srv)
           = (case marshalAircraft j (decoded\<lparr>Timestamp := now clk\<rparr>) of None \<Rightarrow> [] | Some js \<Rightarrow> [aircraftFrame js])
             @ map alertFrame (List.map_filter (marshalAlert j)
                 (newAlerts (decoded\<lparr>Timestamp := now clk\<rparr>) (alertCriteria srv) (tick clk)))"
    using L3 by (simp add: out st0_def a_def)
  show "alertCriteria (server (postAircraft j slack clk reqBody srv)) = alertCriteria srv"
    by (simp add: out)
qed

lemma srv_ok_init: "srv_ok initServer"
  by (simp add: srv_ok_def log_ok_def initServer_def nilSlice_def)

text \<open>
  C1. The match flag the loop computes is the rule of the specification. A successful
  \<open>POST /api/aircraft\<close> appends to the alert log one alert for each criterion that
  matches, in the order of the criteria list, each holding the ingested aircraft: the
  criteria of the new alerts are exactly the matching criteria, with repetitions kept,
  so a criterion matching on both fields gives one alert, several matching criteria
  give several, and none gives none.
\<close>

theorem postAircraft_matching:
  assumes "srv_ok srv" and "decodeAircraft j reqBody = Some decoded"
  shows "(\<forall>c a. criterion_match c a = spec_match c a)
       \<and> (\<exists>new. alertLog (server (postAircraft j slack clk reqBody srv)) = alertLog srv @ new
            \<and> map a_Criteria new = filter (\<lambda>c. spec_match c decoded) (alertCriteria srv)
            \<and> (\<forall>al \<in> set new. a_Aircraft al = decoded\<lparr>Timestamp := now clk\<rparr>))"
proof -
  let ?a = "decoded\<lparr>Timestamp := now clk\<rparr>"
  let ?new = "newAlerts ?a (alertCriteria srv) (tick clk)"
  have sm: "spec_match c ?a = spec_match c decoded" for c
    by (simp add: spec_match_def)
  have "map a_Criteria ?new = filter (\<lambda>c. spec_match c decoded) (alertCriteria srv)"
    by (simp add: newAlerts_criteria sm)
  moreover have "\<forall>al \<in> set ?new. a_Aircraft al = ?a"
    using newAlerts_aircraft by blast
  ultimately show ?thesis
    using postAircraft_spec(2)[OF assms] match_is_spec by blast
qed


theorem postAircraft_matching_witness:
  "srv_ok initServer \<and> decodeAircraft exJson ''ok'' = Some exAircraft
   \<and> map a_Criteria (alertLog (server (postAircraft exJson exSlack exClock ''ok'' initServer)))
       = [\<lparr>c_ICAO = [], c_Callsign = ''TARGET1''\<rparr>, \<lparr>c_ICAO = ''AABBCC'', c_Callsign = []\<rparr>]"
proof -
  have h1: "srv_ok initServer" by (rule srv_ok_init)
  have h2: "decodeAircraft exJson ''ok'' = Some exAircraft" by (simp add: exJson_def)
  have l0: "alertLog initServer = []"
    by (simp add: alertLog_def elems_def initServer_def nilSlice_def)
  from postAircraft_matching[OF h1 h2, of exSlack exClock]
  obtain new where
    "alertLog (server (postAircraft exJson exSlack exClock ''ok'' initServer)) = alertLog initServer @ new"
    and "map a_Criteria new = filter (\<lambda>c. spec_match c exAircraft) (alertCriteria initServer)"
    by blast
  then show ?thesis using h1 h2 l0
    by (simp add: initServer_def spec_match_def exAircraft_def)
qed

text \<open>
  C5. When the body does not decode, \<open>POST /api/aircraft\<close> answers 400 with
  \<open>{"error":"Invalid aircraft data"}\<close>, leaves the server state (alert log and criteria
  list) as it was and sends nothing on \<open>hub.broadcast\<close>.
\<close>

theorem postAircraft_malformed:
  assumes "decodeAircraft j reqBody = None"
  shows "response (postAircraft j slack clk reqBody srv)
           = \<lparr>status = 400, body = JMap [(''error'', ''Invalid aircraft data'')]\<rparr>
       \<and> server (postAircraft j slack clk reqBody srv) = srv
       \<and> alertLog (server (postAircraft j slack clk reqBody srv)) = alertLog srv
       \<and> alertCriteria (server (postAircraft j slack clk reqBody srv)) = alertCriteria srv
       \<and> sent (postAircraft j slack clk reqBody srv) = []"
  using assms by (simp add: postAircraft_def)

theorem postAircraft_malformed_witness:
  "decodeAircraft exJson ''{'' = None
   \<and> response (postAircraft exJson exSlack exClock ''{'' initServer)
           = \<lparr>status = 400, body = JMap [(''error'', ''Invalid aircraft data'')]\<rparr>
   \<and> server (postAircraft exJson exSlack exClock ''{'' initServer) = initServer
   \<and> sent (postAircraft exJson exSlack exClock ''{'' initServer) = []"
proof -
  have h: "decodeAircraft exJson ''{'' = None" by (simp add: exJson_def)
  show ?thesis using postAircraft_malformed[OF h, of exSlack exClock initServer] h by simp
qed

text \<open>
  C7. Once the body has decoded the answer is 200 \<open>{"status":"received"}\<close> whatever the
  marshalling does. The alert log does not depend on the marshalling functions: it is
  the same under any other pair \<open>mA\<close>, \<open>mL\<close>. The messages sent on \<open>hub.broadcast\<close> are
  the aircraft frame, if the aircraft marshalled, followed by the frames of exactly
  those new alerts that marshalled: a failed marshal skips that one message only.
\<close>

theorem postAircraft_marshal_failure:
  assumes "srv_ok srv" and "decodeAircraft j reqBody = Some decoded"
  shows "response (postAircraft j slack clk reqBody srv)
           = \<lparr>status = 200, body = JMap [(''status'', ''received'')]\<rparr>
       \<and> alertLog (server (postAircraft (j\<lparr>marshalAircraft := mA, marshalAlert := mL\<rparr>) slack clk reqBody srv))
           = alertLog (server (postAircraft j slack clk reqBody srv))
       \<and> (\<exists>new. alertLog (server (postAircraft j slack clk reqBody srv)) = alertLog srv @ new
            \<and> map a_Criteria new = filter (\<lambda>c. criterion_match c decoded) (alertCriteria srv)
            \<and> sent (postAircraft j slack clk reqBody srv)
                = (case marshalAircraft j (decoded\<lparr>Timestamp := now clk\<rparr>) of
                     None \<Rightarrow> [] | Some js \<Rightarrow> [aircraftFrame js])
                  @ map alertFrame (List.map_filter (marshalAlert j) new))"
proof -
  have d': "decodeAircraft (j\<lparr>marshalAircraft := mA, marshalAlert := mL\<rparr>) reqBody = Some decoded"
    using assms(2) by simp
  have r: "response (postAircraft j slack clk reqBody srv)
           = \<lparr>status = 200, body = JMap [(''status'', ''received'')]\<rparr>"
    using assms(2) by (simp add: postAircraft_def Let_def)
  have sm: "spec_match c (decoded\<lparr>Timestamp := now clk\<rparr>) = criterion_match c decoded" for c
    by (simp add: spec_match_def match_is_spec)
  have c: "map a_Criteria (newAlerts (decoded\<lparr>Timestamp := now clk\<rparr>) (alertCriteria srv) (tick clk))
             = filter (\<lambda>c. criterion_match c decoded) (alertCriteria srv)"
    by (simp add: newAlerts_criteria sm)
  show ?thesis
    using r c postAircraft_spec(2,3)[OF assms] postAircraft_spec(2)[OF assms(1) d']
    by auto
qed

theorem postAircraft_marshal_failure_witness:
  "srv_ok initServer \<and> decodeAircraft exJson ''ok'' = Some exAircraft
   \<and> response (postAircraft exJson exSlack exClock ''ok'' initServer)
       = \<lparr>status = 200, body = JMap [(''status'', ''received'')]\<rparr>
   \<and> length (alertLog (server (postAircraft exJson exSlack exClock ''ok'' initServer))) = 2
   \<and> length (sent (postAircraft exJson exSlack exClock ''ok'' initServer)) = 2"
proof -
  have h1: "srv_ok initServer" by (rule srv_ok_init)
  have h2: "decodeAircraft exJson ''ok'' = Some exAircraft" by (simp add: exJson_def)
  have l0: "alertLog initServer = []"
    by (simp add: alertLog_def elems_def initServer_def nilSlice_def)
  from postAircraft_marshal_failure[OF h1 h2, of exSlack exClock]
  obtain new where 
    r: "response (postAircraft exJson exSlack exClock ''ok'' initServer)
       = \<lparr>status = 200, body = JMap [(''status'', ''received'')]\<rparr>"
    and n1: "alertLog (server (postAircraft exJson exSlack exClock ''ok'' initServer)) = alertLog initServer @ new"
    and n2: "map a_Criteria new = filter (\<lambda>c. criterion_match c exAircraft) (alertCriteria initServer)"
    and n3: "sent (postAircraft exJson exSlack exClock ''ok'' initServer)
                = (case marshalAircraft exJson (exAircraft\<lparr>Timestamp := now exClock\<rparr>) of
                     None \<Rightarrow> [] | Some js \<Rightarrow> [aircraftFrame js])
                  @ map alertFrame (List.map_filter (marshalAlert exJson) new)"
    by blast
  have n2': "map a_Criteria new = [\<lparr>c_ICAO = [], c_Callsign = ''TARGET1''\<rparr>, \<lparr>c_ICAO = ''AABBCC'', c_Callsign = []\<rparr>]"
    using n2 by (simp add: initServer_def criterion_match_def exAircraft_def)
  then obtain x y where xy: "new = [x, y]" "a_Criteria x = \<lparr>c_ICAO = [], c_Callsign = ''TARGET1''\<rparr>"
     "a_Criteria y = \<lparr>c_ICAO = ''AABBCC'', c_Callsign = []\<rparr>"
    by auto
  have "length (sent (postAircraft exJson exSlack exClock ''ok'' initServer)) = 2"
    unfolding n3 using xy by (simp add: exJson_def List.map_filter_simps)
  then show ?thesis using h1 h2 r n1 l0 xy by simp
qed

section \<open>Timestamps, startup and criteria\<close>

lemma alertLog_init: "alertLog initServer = []"
  by (simp add: alertLog_def elems_def initServer_def nilSlice_def)

lemma criteriaLoop_cong:
  "marshalAlert j' = marshalAlert j \<Longrightarrow>
   criteriaLoop j' slack a cs st = criteriaLoop j slack a cs st"
  by (induction cs arbitrary: st) (simp_all add: Let_def split: prod.splits)

text \<open>
  C8. On a successful \<open>POST /api/aircraft\<close> every alert appended holds an aircraft whose
  timestamp is the reading of the server's clock taken right after decoding, the
  aircraft frame sent on \<open>hub.broadcast\<close> is the marshalling of the aircraft with that
  timestamp, and the whole outcome is the same whatever timestamp \<open>t\<close> the body decoded
  to: the producer's timestamp is overwritten.
\<close>

theorem postAircraft_timestamp:
  assumes "srv_ok srv" and "decodeAircraft j reqBody = Some decoded"
  shows "(\<exists>new. alertLog (server (postAircraft j slack clk reqBody srv)) = alertLog srv @ new
            \<and> (\<forall>al \<in> set new. Timestamp (a_Aircraft al) = now clk)
            \<and> sent (postAircraft j slack clk reqBody srv)
                = (case marshalAircraft j (decoded\<lparr>Timestamp := now clk\<rparr>) of
                     None \<Rightarrow> [] | Some js \<Rightarrow> [aircraftFrame js])
                  @ map alertFrame (List.map_filter (marshalAlert j) new))
       \<and> postAircraft (j\<lparr>decodeAircraft := (decodeAircraft j)(reqBody \<mapsto> decoded\<lparr>Timestamp := t\<rparr>)\<rparr>)
            slack clk reqBody srv
          = postAircraft j slack clk reqBody srv"
proof -
  let ?new = "newAlerts (decoded\<lparr>Timestamp := now clk\<rparr>) (alertCriteria srv) (tick clk)"
  have "\<forall>al \<in> set ?new. Timestamp (a_Aircraft al) = now clk"
    using newAlerts_aircraft by fastforce
  then have A: "\<exists>new. alertLog (server (postAircraft j slack clk reqBody srv)) = alertLog srv @ new
            \<and> (\<forall>al \<in> set new. Timestamp (a_Aircraft al) = now clk)
            \<and> sent (postAircraft j slack clk reqBody srv)
                = (case marshalAircraft j (decoded\<lparr>Timestamp := now clk\<rparr>) of
                     None \<Rightarrow> [] | Some js \<Rightarrow> [aircraftFrame js])
                  @ map alertFrame (List.map_filter (marshalAlert j) new)"
    using postAircraft_spec(2,3)[OF assms, of slack clk] by blast
  have B: "postAircraft (j\<lparr>decodeAircraft := (decodeAircraft j)(reqBody \<mapsto> decoded\<lparr>Timestamp := t\<rparr>)\<rparr>)
            slack clk reqBody srv
          = postAircraft j slack clk reqBody srv"
  proof -
    let ?j' = "j\<lparr>decodeAircraft := (decodeAircraft j)(reqBody \<mapsto> decoded\<lparr>Timestamp := t\<rparr>)\<rparr>"
    have m: "marshalAlert ?j' = marshalAlert j" by simp
    show ?thesis
      using assms(2)
      by (simp add: postAircraft_def Let_def criteriaLoop_cong[OF m])
  qed
  show ?thesis using A B by blast
qed

theorem postAircraft_timestamp_witness:
  "srv_ok initServer \<and> decodeAircraft exJson ''ok'' = Some exAircraft
   \<and> map (\<lambda>al. Timestamp (a_Aircraft al))
        (alertLog (server (postAircraft exJson exSlack exClock ''ok'' initServer))) = [100, 100]
   \<and> postAircraft (exJson\<lparr>decodeAircraft := (decodeAircraft exJson)(''ok'' \<mapsto> exAircraft\<lparr>Timestamp := 9\<rparr>)\<rparr>)
        exSlack exClock ''ok'' initServer
      = postAircraft exJson exSlack exClock ''ok'' initServer"
proof -
  have h1: "srv_ok initServer" by (rule srv_ok_init)
  have h2: "decodeAircraft exJson ''ok'' = Some exAircraft" by (simp add: exJson_def)
  from postAircraft_timestamp[OF h1 h2, of exSlack exClock 9]
  obtain new where n1: "alertLog (server (postAircraft exJson exSlack exClock ''ok'' initServer)) = alertLog initServer @ new"
    and n2: "\<forall>al \<in> set new. Timestamp (a_Aircraft al) = now exClock"
    and n3: "postAircraft (exJson\<lparr>decodeAircraft := (decodeAircraft exJson)(''ok'' \<mapsto> exAircraft\<lparr>Timestamp := 9\<rparr>)\<rparr>)
        exSlack exClock ''ok'' initServer
      = postAircraft exJson exSlack exClock ''ok'' initServer"
    by blast
  have crit: "alertCriteria initServer
     = [\<lparr>c_ICAO = [], c_Callsign = ''TARGET1''\<rparr>, \<lparr>c_ICAO = ''AABBCC'', c_Callsign = []\<rparr>]"
    by (simp add: initServer_def)
  have len: "length (alertLog (server (postAircraft exJson exSlack exClock ''ok'' initServer))) = 2"
    unfolding postAircraft_spec(2)[OF h1 h2, of exSlack exClock] alertLog_init crit
    by (simp add: criterion_match_def exAircraft_def)
  then obtain x y where xy: "new = [x, y]"
    using n1 by (cases new) (auto simp: alertLog_init length_Suc_conv)
  show ?thesis using h1 h2 n1 n2 n3 xy by (simp add: alertLog_init now_def exClock_def)
qed

text \<open>
  C9. The state \<open>main\<close> starts serving with holds exactly the two criteria
  \<open>{callsign:"TARGET1"}\<close> and \<open>{icao:"AABBCC"}\<close>, in that order, and an empty alert log.
  Ingesting an aircraft in that state appends the alert of the first criterion when
  the callsign is \<open>TARGET1\<close> and then that of the second when the icao is \<open>AABBCC\<close>; so
  an aircraft with that callsign or that icao triggers an alert.
\<close>

theorem initServer_seeded:
  "alertCriteria initServer
     = [\<lparr>c_ICAO = [], c_Callsign = ''TARGET1''\<rparr>, \<lparr>c_ICAO = ''AABBCC'', c_Callsign = []\<rparr>]
   \<and> alertLog initServer = []
   \<and> (decodeAircraft j reqBody = Some decoded \<longrightarrow>
        map a_Criteria (alertLog (server (postAircraft j slack clk reqBody initServer)))
          = (if Callsign decoded = ''TARGET1'' then [\<lparr>c_ICAO = [], c_Callsign = ''TARGET1''\<rparr>] else [])
            @ (if ICAO decoded = ''AABBCC'' then [\<lparr>c_ICAO = ''AABBCC'', c_Callsign = []\<rparr>] else []))
   \<and> (decodeAircraft j reqBody = Some decoded \<longrightarrow>
        Callsign decoded = ''TARGET1'' \<or> ICAO decoded = ''AABBCC'' \<longrightarrow>
        alertLog (server (postAircraft j slack clk reqBody initServer)) \<noteq> [])"
proof -
  have c: "alertCriteria initServer
     = [\<lparr>c_ICAO = [], c_Callsign = ''TARGET1''\<rparr>, \<lparr>c_ICAO = ''AABBCC'', c_Callsign = []\<rparr>]"
    by (simp add: initServer_def)
  have m: "map a_Criteria (alertLog (server (postAircraft j slack clk reqBody initServer)))
          = (if Callsign decoded = ''TARGET1'' then [\<lparr>c_ICAO = [], c_Callsign = ''TARGET1''\<rparr>] else [])
            @ (if ICAO decoded = ''AABBCC'' then [\<lparr>c_ICAO = ''AABBCC'', c_Callsign = []\<rparr>] else [])"
    if d: "decodeAircraft j reqBody = Some decoded"
  proof -
    have "map a_Criteria (alertLog (server (postAircraft j slack clk reqBody initServer)))
            = filter (\<lambda>c. spec_match c (decoded\<lparr>Timestamp := now clk\<rparr>)) (alertCriteria initServer)"
      using postAircraft_spec(2)[OF srv_ok_init d, of slack clk]
      by (simp add: alertLog_init newAlerts_criteria)
    then show ?thesis unfolding c by (auto simp: spec_match_def)
  qed
  have n: "alertLog (server (postAircraft j slack clk reqBody initServer)) \<noteq> []"
    if d: "decodeAircraft j reqBody = Some decoded"
      and t: "Callsign decoded = ''TARGET1'' \<or> ICAO decoded = ''AABBCC''"
  proof
    assume "alertLog (server (postAircraft j slack clk reqBody initServer)) = []"
    then have "map a_Criteria (alertLog (server (postAircraft j slack clk reqBody initServer))) = []"
      by simp
    then show False using m[OF d] t by (auto split: if_splits)
  qed
  show ?thesis using c m n alertLog_init by blast
qed

theorem initServer_seeded_witness:
  "decodeAircraft exJson ''ok'' = Some exAircraft
   \<and> (Callsign exAircraft = ''TARGET1'' \<or> ICAO exAircraft = ''AABBCC'')
   \<and> alertLog (server (postAircraft exJson exSlack exClock ''ok'' initServer)) \<noteq> []
   \<and> map a_Criteria (alertLog (server (postAircraft exJson exSlack exClock ''ok'' initServer)))
       = [\<lparr>c_ICAO = [], c_Callsign = ''TARGET1''\<rparr>, \<lparr>c_ICAO = ''AABBCC'', c_Callsign = []\<rparr>]"
proof -
  have h1: "decodeAircraft exJson ''ok'' = Some exAircraft" by (simp add: exJson_def)
  have h2: "Callsign exAircraft = ''TARGET1'' \<or> ICAO exAircraft = ''AABBCC''"
    by (simp add: exAircraft_def)
  show ?thesis
    using initServer_seeded[of exJson "''ok''" exAircraft exSlack exClock] h1 h2
    by (simp add: exAircraft_def)
qed

text \<open>
  C10. \<open>POST /api/alert-criteria\<close> with a body decoding to a criterion whose icao and
  callsign are both empty answers 201 with that criterion and appends it to the
  criteria list. Such a criterion matches no aircraft, and every later ingestion has
  the outcome it would have had without it (the same response, alert log and
  broadcasts).
\<close>

theorem postAlertCriteria_empty:
  assumes "decodeCriteria j reqBody = Some criterion"
      and "c_ICAO criterion = []" and "c_Callsign criterion = []"
  shows "postAlertCriteria j reqBody srv
           = (\<lparr>status = 201, body = JCriterion criterion\<rparr>,
              srv\<lparr>alertCriteria := alertCriteria srv @ [criterion]\<rparr>)
       \<and> (\<forall>aircraft. \<not> criterion_match criterion aircraft)
       \<and> (\<forall>j' slack clk b.
            postAircraft j' slack clk b (snd (postAlertCriteria j reqBody srv))
              = (postAircraft j' slack clk b srv)
                  \<lparr>server := (server (postAircraft j' slack clk b srv))
                      \<lparr>alertCriteria := alertCriteria srv @ [criterion]\<rparr>\<rparr>)"
proof -
  have p: "postAlertCriteria j reqBody srv
           = (\<lparr>status = 201, body = JCriterion criterion\<rparr>,
              srv\<lparr>alertCriteria := alertCriteria srv @ [criterion]\<rparr>)"
    using assms(1) by (simp add: postAlertCriteria_def)
  have nm: "\<not> criterion_match criterion aircraft" for aircraft
    using assms(2,3) by (simp add: criterion_match_def)
  have "postAircraft j' slack clk b (srv\<lparr>alertCriteria := alertCriteria srv @ [criterion]\<rparr>)
              = (postAircraft j' slack clk b srv)
                  \<lparr>server := (server (postAircraft j' slack clk b srv))
                      \<lparr>alertCriteria := alertCriteria srv @ [criterion]\<rparr>\<rparr>" for j' slack clk b
    by (simp add: postAircraft_def Let_def criteriaLoop_append nm split: option.splits)
  then show ?thesis using p nm by simp
qed

theorem postAlertCriteria_empty_witness:
  "decodeCriteria exJson ''{}'' = Some \<lparr>c_ICAO = [], c_Callsign = []\<rparr>
   \<and> fst (postAlertCriteria exJson ''{}'' initServer)
       = \<lparr>status = 201, body = JCriterion \<lparr>c_ICAO = [], c_Callsign = []\<rparr>\<rparr>
   \<and> length (alertCriteria (snd (postAlertCriteria exJson ''{}'' initServer))) = 3
   \<and> \<not> criterion_match \<lparr>c_ICAO = [], c_Callsign = []\<rparr> exAircraft"
proof -
  have h: "decodeCriteria exJson ''{}'' = Some \<lparr>c_ICAO = [], c_Callsign = []\<rparr>"
    by (simp add: exJson_def)
  show ?thesis
    using postAlertCriteria_empty[OF h, of initServer] h by (simp add: initServer_def)
qed

section \<open>The alert history\<close>

lemma getAlerts_spec:
  assumes "srv_ok srv"
  shows "status (fst (getAlerts srv)) = 200"
    and "alertsReturned (getAlerts srv) = alertLog srv"
    and "alertLog (snd (getAlerts srv)) = alertLog srv"
    and "srv_ok (snd (getAlerts srv))"
    and "alertLog (callerWrites xs (getAlerts srv)) = alertLog srv"
    and "srv_ok (callerWrites xs (getAlerts srv))"
    and "alertCriteria (snd (getAlerts srv)) = alertCriteria srv"
proof -
  show "status (fst (getAlerts srv)) = 200"
    by (simp add: getAlerts_def makeSlice_def Let_def)
  show "alertsReturned (getAlerts srv) = alertLog srv"
    using assms
    by (auto simp: getAlerts_def makeSlice_def copySlice_def Let_def alertsReturned_def
          alertLog_def elems_def srv_ok_def log_ok_def slice_ok_def)
  show "alertLog (snd (getAlerts srv)) = alertLog srv"
    using assms
    by (auto simp: getAlerts_def makeSlice_def copySlice_def Let_def
          alertLog_def elems_def srv_ok_def log_ok_def slice_ok_def)
  show "srv_ok (snd (getAlerts srv))"
    using assms
    by (auto simp: getAlerts_def makeSlice_def copySlice_def Let_def
          srv_ok_def log_ok_def slice_ok_def)
  show "alertLog (callerWrites xs (getAlerts srv)) = alertLog srv"
    using assms
    by (auto simp: getAlerts_def makeSlice_def copySlice_def Let_def callerWrites_def
          alertLog_def elems_def srv_ok_def log_ok_def slice_ok_def)
  show "srv_ok (callerWrites xs (getAlerts srv))"
    using assms
    by (auto simp: getAlerts_def makeSlice_def copySlice_def Let_def callerWrites_def
          srv_ok_def log_ok_def slice_ok_def)
  show "alertCriteria (snd (getAlerts srv)) = alertCriteria srv"
    by (simp add: getAlerts_def makeSlice_def Let_def)
qed



text \<open>
  Every handler keeps the state well formed, so every state the server reaches from
  \<open>initServer\<close> is.
\<close>

lemma srv_ok_preserved:
  assumes "srv_ok srv"
  shows "srv_ok (server (postAircraft j slack clk reqBody srv))"
    and "srv_ok (snd (postAlertCriteria j reqBody srv))"
    and "srv_ok (snd (getAlerts srv))"
proof -
  show "srv_ok (server (postAircraft j slack clk reqBody srv))"
  proof (cases "decodeAircraft j reqBody")
    case None
    then show ?thesis using assms by (simp add: postAircraft_def)
  next
    case (Some decoded)
    then show ?thesis by (rule postAircraft_spec(1)[OF assms])
  qed
  show "srv_ok (snd (postAlertCriteria j reqBody srv))"
    using assms by (simp add: postAlertCriteria_def srv_ok_def split: option.splits)
  show "srv_ok (snd (getAlerts srv))"
    by (rule getAlerts_spec(4)[OF assms])
qed

section \<open>The hub: one broadcast, one event\<close>

lemma sendOrDrop_registered:
  assumes "objs h c = Some cl" and "\<not> closed (Send cl)"
  shows "sendOrDrop m c h =
           Inr (if hasRoom cl then h\<lparr>objs := (objs h)(c \<mapsto> delivered m cl)\<rparr>
                else h\<lparr>clients := (clients h)(c := None), objs := (objs h)(c \<mapsto> dropped cl)\<rparr>)"
  using assms
  by (simp add: sendOrDrop_def trySend_def closeChan_def hasRoom_def delivered_def dropped_def)

lemma broadcastLoop_spec:
  "hub_inv h \<Longrightarrow> distinct ks \<Longrightarrow> set ks \<subseteq> dom (clients h) \<Longrightarrow>
   \<exists>h'. broadcastLoop m ks h = Inr h' \<and> hub_inv h'
     \<and> (\<forall>c. c \<notin> set ks \<longrightarrow> clients h' c = clients h c \<and> objs h' c = objs h c)
     \<and> (\<forall>c cl. c \<in> set ks \<longrightarrow> objs h c = Some cl \<longrightarrow>
           (if hasRoom cl then clients h' c = clients h c \<and> objs h' c = Some (delivered m cl)
            else clients h' c = None \<and> objs h' c = Some (dropped cl)))"
proof (induction ks arbitrary: h)
  case Nil
  then show ?case by simp
next
  case (Cons c ks)
  from Cons.prems have reg: "clients h c \<noteq> None" by auto
  with Cons.prems(1) obtain cl where cl: "objs h c = Some cl" "\<not> closed (Send cl)"
    by (auto simp: hub_inv_def openAt_def)
  define h1 where "h1 = (if hasRoom cl then h\<lparr>objs := (objs h)(c \<mapsto> delivered m cl)\<rparr>
                else h\<lparr>clients := (clients h)(c := None), objs := (objs h)(c \<mapsto> dropped cl)\<rparr>)"
  have s: "sendOrDrop m c h = Inr h1"
    unfolding h1_def by (rule sendOrDrop_registered[OF cl])
  have loop: "broadcastLoop m (c # ks) h = broadcastLoop m ks h1"
    using reg s by auto
  have inv1: "hub_inv h1"
    using Cons.prems(1) cl
    by (auto simp: h1_def hub_inv_def openAt_def delivered_def)
  have notin: "c \<notin> set ks" and dist: "distinct ks" using Cons.prems(2) by auto
  have sub: "set ks \<subseteq> dom (clients h1)"
    using Cons.prems(3) notin by (auto simp: h1_def)
  have other: "c' \<noteq> c \<Longrightarrow> clients h1 c' = clients h c' \<and> objs h1 c' = objs h c'" for c'
    by (simp add: h1_def)
  have this1: "if hasRoom cl then clients h1 c = clients h c \<and> objs h1 c = Some (delivered m cl)
            else clients h1 c = None \<and> objs h1 c = Some (dropped cl)"
    by (simp add: h1_def)
  from Cons.IH[OF inv1 dist sub] obtain h' where
    r: "broadcastLoop m ks h1 = Inr h'" and inv': "hub_inv h'"
    and fr: "\<forall>c. c \<notin> set ks \<longrightarrow> clients h' c = clients h1 c \<and> objs h' c = objs h1 c"
    and up: "\<forall>c cl. c \<in> set ks \<longrightarrow> objs h1 c = Some cl \<longrightarrow>
           (if hasRoom cl then clients h' c = clients h1 c \<and> objs h' c = Some (delivered m cl)
            else clients h' c = None \<and> objs h' c = Some (dropped cl))"
    by blast
  have A: "\<forall>c'. c' \<notin> set (c # ks) \<longrightarrow> clients h' c' = clients h c' \<and> objs h' c' = objs h c'"
    using fr other by auto
  have B: "\<forall>c' cl'. c' \<in> set (c # ks) \<longrightarrow> objs h c' = Some cl' \<longrightarrow>
           (if hasRoom cl' then clients h' c' = clients h c' \<and> objs h' c' = Some (delivered m cl')
            else clients h' c' = None \<and> objs h' c' = Some (dropped cl'))"
  proof (intro allI impI)
    fix c' cl' assume in': "c' \<in> set (c # ks)" and o: "objs h c' = Some cl'"
    show "if hasRoom cl' then clients h' c' = clients h c' \<and> objs h' c' = Some (delivered m cl')
            else clients h' c' = None \<and> objs h' c' = Some (dropped cl')"
    proof (cases "c' = c")
      case True
      then have "cl' = cl" using o cl by simp
      then show ?thesis using True this1 fr notin by auto
    next
      case False
      then have "c' \<in> set ks" using in' by simp
      moreover have "objs h1 c' = Some cl'" using other[OF False] o by simp
      ultimately show ?thesis using up other[OF False] by auto
    qed
  qed
  show ?case unfolding loop using r inv' A B by blast
qed

lemma register_spec:
  assumes "hub_inv h" and "openAt h c"
  shows "register c h = Inr (h\<lparr>clients := (clients h)(c \<mapsto> True)\<rparr>)"
    and "hub_inv (h\<lparr>clients := (clients h)(c \<mapsto> True)\<rparr>)"
  using assms by (auto simp: register_def hub_inv_def openAt_def)

lemma unregister_absent: "clients h c = None \<Longrightarrow> unregister c h = Inr h"
  by (simp add: unregister_def)

lemma unregister_spec:
  assumes "hub_inv h"
  shows "\<exists>h'. unregister c h = Inr h' \<and> hub_inv h' \<and> clients h' = (clients h)(c := None)
          \<and> (\<forall>c'. c' \<noteq> c \<longrightarrow> objs h' c' = objs h c')"
proof (cases "clients h c")
  case None
  then have "(clients h)(c := None) = clients h" by auto
  then show ?thesis using assms None by (simp add: unregister_absent)
next
  case (Some b)
  with assms obtain cl where cl: "objs h c = Some cl" "\<not> closed (Send cl)"
    by (auto simp: hub_inv_def openAt_def)
  have "unregister c h = Inr (h\<lparr>clients := (clients h)(c := None), objs := (objs h)(c \<mapsto> dropped cl)\<rparr>)"
    using Some cl by (simp add: unregister_def closeChan_def dropped_def)
  moreover have "hub_inv (h\<lparr>clients := (clients h)(c := None), objs := (objs h)(c \<mapsto> dropped cl)\<rparr>)"
    using assms by (auto simp: hub_inv_def openAt_def)
  ultimately show ?thesis by simp
qed

text \<open>One event keeps the invariant, and leaves absent clients absent and open ones open, unless it registers them.\<close>

lemma step_spec:
  assumes "hub_inv h" and "step h e r" and "\<forall>c. e = Register c \<longrightarrow> openAt h c"
  shows "\<exists>h'. r = Inr h' \<and> hub_inv h'
           \<and> (\<forall>c. clients h c = None \<longrightarrow> e \<noteq> Register c \<longrightarrow>
                  clients h' c = None \<and> (openAt h c \<longrightarrow> openAt h' c))"
  using assms(2)
proof (cases rule: step.cases)
  case (step_register c)
  then show ?thesis using register_spec[OF assms(1), of c] assms(3)
    by (auto simp: openAt_def)
next
  case (step_unregister c)
  from unregister_spec[OF assms(1), of c] obtain h' where
    "unregister c h = Inr h'" "hub_inv h'" "clients h' = (clients h)(c := None)"
    "\<forall>c'. c' \<noteq> c \<longrightarrow> objs h' c' = objs h c'" by blast
  moreover have "clients h c = None \<Longrightarrow> unregister c h = Inr h"
    by (rule unregister_absent)
  ultimately show ?thesis using step_unregister
    by (auto simp: openAt_def)
next
  case (step_broadcast ks m)
  from broadcastLoop_spec[OF assms(1) step_broadcast(3), of m] step_broadcast(4)
  obtain h' where "broadcastLoop m ks h = Inr h'" "hub_inv h'"
    "\<forall>c. c \<notin> set ks \<longrightarrow> clients h' c = clients h c \<and> objs h' c = objs h c"
    by auto
  then show ?thesis using step_broadcast
    by (auto simp: openAt_def dom_def)
next
  case (step_receive c cl m ms)
  have "hub_inv (h\<lparr>objs := (objs h)(c \<mapsto> cl\<lparr>Send := (Send cl)\<lparr>buf := ms\<rparr>\<rparr>)\<rparr>)"
    using assms(1) step_receive(3) by (auto simp: hub_inv_def openAt_def)
  then show ?thesis using step_receive by (auto simp: openAt_def)
qed

section \<open>Broadcast\<close>

text \<open>
  C2. When the hub, with every registered client's queue open, processes a broadcast,
  in whatever order it visits the clients, it finishes without a panic, and for every
  registered client: if the queue has room the message is put at its end and the
  client stays registered; if the queue is full the client is removed from the set and
  its queue is closed. Clients that are not registered are not touched. With finitely
  many clients the broadcast can always be processed. The queue of a client created by
  the events handler has capacity 256, so it has room exactly when it holds fewer than
  256 messages.
\<close>

theorem broadcast_isolates_full_queue:
  assumes "hub_inv h" and "step h (Broadcast m) r"
  shows "(\<exists>h'. r = Inr h' \<and> hub_inv h'
           \<and> (\<forall>c cl. clients h c \<noteq> None \<longrightarrow> objs h c = Some cl \<longrightarrow>
                 (if hasRoom cl
                  then clients h' c = clients h c \<and> objs h' c = Some (delivered m cl)
                  else clients h' c = None \<and> objs h' c = Some (dropped cl)))
           \<and> (\<forall>c. clients h c = None \<longrightarrow> clients h' c = None \<and> objs h' c = objs h c))
       \<and> (finite (dom (clients h)) \<longrightarrow> (\<exists>r'. step h (Broadcast m) r'))
       \<and> (\<forall>remoteAddr. ch_cap (Send (newClient remoteAddr)) = 256)
       \<and> (\<forall>cl. ch_cap (Send cl) = 256 \<longrightarrow> (hasRoom cl \<longleftrightarrow> length (buf (Send cl)) < 256))"
proof -
  from assms(2) obtain ks where ks: "distinct ks" "set ks = dom (clients h)"
    and r: "r = broadcastLoop m ks h"
    by (cases rule: step.cases) auto
  from broadcastLoop_spec[OF assms(1) ks(1), of m] ks(2)
  obtain h' where h': "broadcastLoop m ks h = Inr h'" "hub_inv h'"
    and fr: "\<forall>c. c \<notin> set ks \<longrightarrow> clients h' c = clients h c \<and> objs h' c = objs h c"
    and up: "\<forall>c cl. c \<in> set ks \<longrightarrow> objs h c = Some cl \<longrightarrow>
           (if hasRoom cl then clients h' c = clients h c \<and> objs h' c = Some (delivered m cl)
            else clients h' c = None \<and> objs h' c = Some (dropped cl))"
    by auto
  have A: "\<forall>c cl. clients h c \<noteq> None \<longrightarrow> objs h c = Some cl \<longrightarrow>
                 (if hasRoom cl
                  then clients h' c = clients h c \<and> objs h' c = Some (delivered m cl)
                  else clients h' c = None \<and> objs h' c = Some (dropped cl))"
    using up ks(2) by (simp add: dom_def)
  have B: "\<forall>c. clients h c = None \<longrightarrow> clients h' c = None \<and> objs h' c = objs h c"
    using fr ks(2) by (auto simp: dom_def)
  have C: "finite (dom (clients h)) \<longrightarrow> (\<exists>r'. step h (Broadcast m) r')"
  proof
    assume "finite (dom (clients h))"
    from finite_distinct_list[OF this]
    obtain xs where xs: "set xs = dom (clients h)" "distinct xs"
      by (elim exE conjE)
    show "\<exists>r'. step h (Broadcast m) r'"
      by (rule exI, rule step_broadcast[OF xs(2) xs(1)])
  qed
  have D: "\<forall>remoteAddr. ch_cap (Send (newClient remoteAddr)) = 256"
    by (simp add: newClient_def makeChan_def)
  have E: "\<forall>cl. ch_cap (Send cl) = 256 \<longrightarrow> (hasRoom cl \<longleftrightarrow> length (buf (Send cl)) < 256)"
    by (simp add: hasRoom_def)
  have "r = Inr h'" using r h'(1) by simp
  with h'(2) A B have M: "\<exists>h'. r = Inr h' \<and> hub_inv h'
           \<and> (\<forall>c cl. clients h c \<noteq> None \<longrightarrow> objs h c = Some cl \<longrightarrow>
                 (if hasRoom cl
                  then clients h' c = clients h c \<and> objs h' c = Some (delivered m cl)
                  else clients h' c = None \<and> objs h' c = Some (dropped cl)))
           \<and> (\<forall>c. clients h c = None \<longrightarrow> clients h' c = None \<and> objs h' c = objs h c)"
    by (intro exI[of _ h'] conjI)
  show ?thesis by (rule conjI[OF M conjI[OF C conjI[OF D E]]])
qed


lemma exHub_inv: "hub_inv exHub"
  by (simp add: hub_inv_def openAt_def exHub_def exFull_def newClient_def makeChan_def)

lemma exHub_broadcast: "broadcastLoop ''msg'' [1, 2] exHub = Inr exHubAfter"
proof -
  have full: "\<not> hasRoom exFull" by (simp add: exFull_def hasRoom_def)
  have room: "hasRoom (newClient ''10.0.0.2:4000'')"
    by (simp add: hasRoom_def newClient_def makeChan_def)
  have o1: "objs exHub 1 = Some exFull" "\<not> closed (Send exFull)"
    by (simp_all add: exHub_def exFull_def)
  define h1 where "h1 = exHub\<lparr>clients := (clients exHub)(1 := None),
                              objs := (objs exHub)(1 \<mapsto> dropped exFull)\<rparr>"
  have s1: "sendOrDrop ''msg'' 1 exHub = Inr h1"
    using sendOrDrop_registered[OF o1, of "''msg''"] full by (simp add: h1_def)
  have o2: "objs h1 2 = Some (newClient ''10.0.0.2:4000'')"
    "\<not> closed (Send (newClient ''10.0.0.2:4000''))"
    by (simp_all add: h1_def exHub_def newClient_def makeChan_def)
  have s2: "sendOrDrop ''msg'' 2 h1
              = Inr (h1\<lparr>objs := (objs h1)(2 \<mapsto> delivered ''msg'' (newClient ''10.0.0.2:4000''))\<rparr>)"
    using sendOrDrop_registered[OF o2, of "''msg''"] room by simp
  have c1: "clients exHub 1 \<noteq> None" by (simp add: exHub_def)
  have c2: "clients h1 2 \<noteq> None" by (simp add: h1_def exHub_def)
  have e: "h1\<lparr>objs := (objs h1)(2 \<mapsto> delivered ''msg'' (newClient ''10.0.0.2:4000''))\<rparr> = exHubAfter"
    by (auto simp: h1_def exHub_def exHubAfter_def fun_eq_iff)
  have "broadcastLoop ''msg'' [1, 2] exHub = broadcastLoop ''msg'' [2] h1"
    using c1 by (simp only: broadcastLoop.simps s1 if_False sum.case)
  also have "\<dots> = broadcastLoop ''msg'' [] exHubAfter"
    using c2 by (simp only: broadcastLoop.simps s2 e if_False sum.case)
  finally show ?thesis by simp
qed

lemma exHub_step: "step exHub (Broadcast ''msg'') (Inr exHubAfter)"
proof -
  have "distinct [1::nat, 2]" by simp
  moreover have "set [1::nat, 2] = dom (clients exHub)"
    by (auto simp: exHub_def)
  ultimately have "step exHub (Broadcast ''msg'') (broadcastLoop ''msg'' [1, 2] exHub)"
    by (rule step_broadcast)
  then show ?thesis by (simp only: exHub_broadcast)
qed

theorem broadcast_isolates_full_queue_witness:
  "hub_inv exHub \<and> step exHub (Broadcast ''msg'') (Inr exHubAfter)
   \<and> clients exHub 1 \<noteq> None \<and> objs exHub 1 = Some exFull \<and> \<not> hasRoom exFull
   \<and> clients exHubAfter 1 = None \<and> objs exHubAfter 1 = Some (dropped exFull)
   \<and> clients exHub 2 \<noteq> None \<and> hasRoom (newClient ''10.0.0.2:4000'')
   \<and> clients exHubAfter 2 = Some True
   \<and> objs exHubAfter 2 = Some (delivered ''msg'' (newClient ''10.0.0.2:4000''))"
proof -
  have f: "clients exHub 1 \<noteq> None" "objs exHub 1 = Some exFull" "\<not> hasRoom exFull"
    "clients exHub 2 \<noteq> None" "objs exHub 2 = Some (newClient ''10.0.0.2:4000'')"
    "hasRoom (newClient ''10.0.0.2:4000'')" "clients exHub 2 = Some True"
    by (simp_all add: exHub_def exFull_def hasRoom_def newClient_def makeChan_def)
  from broadcast_isolates_full_queue[OF exHub_inv exHub_step]
  have "\<forall>c cl. clients exHub c \<noteq> None \<longrightarrow> objs exHub c = Some cl \<longrightarrow>
                 (if hasRoom cl
                  then clients exHubAfter c = clients exHub c \<and> objs exHubAfter c = Some (delivered ''msg'' cl)
                  else clients exHubAfter c = None \<and> objs exHubAfter c = Some (dropped cl))"
    by blast
  then have g: "if hasRoom exFull
          then clients exHubAfter 1 = clients exHub 1 \<and> objs exHubAfter 1 = Some (delivered ''msg'' exFull)
          else clients exHubAfter 1 = None \<and> objs exHubAfter 1 = Some (dropped exFull)"
    and k: "if hasRoom (newClient ''10.0.0.2:4000'')
          then clients exHubAfter 2 = clients exHub 2
               \<and> objs exHubAfter 2 = Some (delivered ''msg'' (newClient ''10.0.0.2:4000''))
          else clients exHubAfter 2 = None \<and> objs exHubAfter 2 = Some (dropped (newClient ''10.0.0.2:4000''))"
    using f(1,2,4,5) by blast+
  from g f(3) have g': "clients exHubAfter 1 = None \<and> objs exHubAfter 1 = Some (dropped exFull)"
    by (simp only: if_False)
  from k f(6,7) have k': "clients exHubAfter 2 = Some True
               \<and> objs exHubAfter 2 = Some (delivered ''msg'' (newClient ''10.0.0.2:4000''))"
    by (simp only: if_True)
  show ?thesis
    using exHub_inv exHub_step f(1,2,3,4,6) g' k' by (intro conjI) (elim conjE, assumption)+
qed

section \<open>Registering twice\<close>

text \<open>
  C3, as amended. Registering a client that is registered already changes nothing: a
  second register request gives the state the first one gave. The set then holds the
  one membership \<open>true\<close> for the client, the other clients' memberships are as before,
  and one unregister request removes the client from the set.
\<close>

theorem register_idempotent:
  assumes "register c h = Inr h1"
  shows "register c h1 = Inr h1
       \<and> clients h1 c = Some True
       \<and> (\<forall>c'. c' \<noteq> c \<longrightarrow> clients h1 c' = clients h c')
       \<and> objs h1 = objs h
       \<and> (\<forall>h2. unregister c h1 = Inr h2 \<longrightarrow> clients h2 c = None)"
proof -
  from assms obtain cl where cl: "objs h c = Some cl"
    and h1: "h1 = h\<lparr>clients := (clients h)(c \<mapsto> True)\<rparr>"
    by (auto simp: register_def split: option.splits)
  have "register c h1 = Inr h1"
    using cl by (simp add: h1 register_def)
  moreover have "\<forall>h2. unregister c h1 = Inr h2 \<longrightarrow> clients h2 c = None"
    using cl by (auto simp: h1 unregister_def split: sum.splits)
  ultimately show ?thesis by (simp add: h1)
qed

theorem register_idempotent_witness:
  "register 1 exReg0 = Inr exReg1 \<and> register 1 exReg1 = Inr exReg1
   \<and> clients exReg1 1 = Some True \<and> objs exReg1 = objs exReg0"
proof -
  have h: "register 1 exReg0 = Inr exReg1"
    by (simp add: exReg0_def exReg1_def newHub_def register_def)
  show ?thesis using register_idempotent[OF h] h by simp
qed

text \<open>
  C3 as stated fails: two memberships that were independent would leave one behind
  when one is removed. For a hub with the single client 1, the second register request
  returns the state of the first, and after one unregister request the client is not
  in the set.
\<close>

theorem register_twice_counterexample:
  "register 1 exReg0 = Inr exReg1 \<and> register 1 exReg1 = Inr exReg1
   \<and> unregister 1 exReg1 = Inr exReg2 \<and> clients exReg2 1 = None"
  by (simp add: exReg0_def exReg1_def exReg2_def newHub_def register_def unregister_def
        closeChan_def newClient_def makeChan_def dropped_def)

section \<open>Closing a queue\<close>

text \<open>
  A second \<open>close\<close> of a queue is the panic \<open>CloseOfClosedChannel\<close>: a queue is closed at
  most once exactly when that panic does not occur.
\<close>

lemma sys_step_spec:
  assumes "sys_inv s" and "sys_step s a r"
  shows "\<exists>s'. r = Inr s' \<and> sys_inv s'"
  using assms(2)
proof (cases rule: sys_step.cases)
  case (sys_create h c P remoteAddr)
  have i: "hub_inv h" and p: "\<forall>c' \<in> P. clients h c' = None \<and> openAt h c'"
    using assms(1) sys_create(1) by (simp_all add: sys_inv_def)
  have nreg: "clients h c = None"
  proof (rule ccontr)
    assume "clients h c \<noteq> None"
    with i have "openAt h c" by (simp add: hub_inv_def)
    with sys_create(4) show False by (simp add: openAt_def)
  qed
  let ?h = "h\<lparr>objs := (objs h)(c \<mapsto> newClient remoteAddr)\<rparr>"
  have o: "openAt h c' \<Longrightarrow> openAt ?h c'" for c'
    using sys_create(4) by (auto simp: openAt_def)
  have "hub_inv ?h"
    using i o by (simp add: hub_inv_def)
  moreover have "openAt ?h c"
    by (simp add: openAt_def newClient_def makeChan_def)
  ultimately have "sys_inv (?h, insert c P)"
    using p nreg o by (simp add: sys_inv_def)
  then show ?thesis using sys_create(3) by simp
next
  case (sys_register c P h r')
  have i: "hub_inv h" and p: "\<forall>c' \<in> P. clients h c' = None \<and> openAt h c'"
    using assms(1) sys_register(1) by (simp_all add: sys_inv_def)
  have g: "\<forall>c'. Register c = Register c' \<longrightarrow> openAt h c'"
    using p sys_register(4) by simp
  from step_spec[OF i sys_register(5) g] obtain h' where
    h': "r' = Inr h'" "hub_inv h'"
    and fr: "\<forall>c'. clients h c' = None \<longrightarrow> Register c \<noteq> Register c' \<longrightarrow>
                  clients h' c' = None \<and> (openAt h c' \<longrightarrow> openAt h' c')"
    by blast
  have "sys_inv (h', P - {c})"
    using h'(2) p fr by (simp add: sys_inv_def)
  then show ?thesis using sys_register(3) h'(1) by (simp add: carry_def)
next
  case (sys_unregister h c r' P)
  have i: "hub_inv h" and p: "\<forall>c' \<in> P. clients h c' = None \<and> openAt h c'"
    using assms(1) sys_unregister(1) by (simp_all add: sys_inv_def)
  have g: "\<forall>c'. Unregister c = Register c' \<longrightarrow> openAt h c'" by simp
  from step_spec[OF i sys_unregister(4) g] obtain h' where
    h': "r' = Inr h'" "hub_inv h'"
    and fr: "\<forall>c'. clients h c' = None \<longrightarrow> Unregister c \<noteq> Register c' \<longrightarrow>
                  clients h' c' = None \<and> (openAt h c' \<longrightarrow> openAt h' c')"
    by blast
  have "sys_inv (h', P)"
    using h'(2) p fr by (simp add: sys_inv_def)
  then show ?thesis using sys_unregister(3) h'(1) by (simp add: carry_def)
next
  case (sys_broadcast h m r' P)
  have i: "hub_inv h" and p: "\<forall>c' \<in> P. clients h c' = None \<and> openAt h c'"
    using assms(1) sys_broadcast(1) by (simp_all add: sys_inv_def)
  have g: "\<forall>c'. Broadcast m = Register c' \<longrightarrow> openAt h c'" by simp
  from step_spec[OF i sys_broadcast(4) g] obtain h' where
    h': "r' = Inr h'" "hub_inv h'"
    and fr: "\<forall>c'. clients h c' = None \<longrightarrow> Broadcast m \<noteq> Register c' \<longrightarrow>
                  clients h' c' = None \<and> (openAt h c' \<longrightarrow> openAt h' c')"
    by blast
  have "sys_inv (h', P)"
    using h'(2) p fr by (simp add: sys_inv_def)
  then show ?thesis using sys_broadcast(3) h'(1) by (simp add: carry_def)
next
  case (sys_receive h c r' P)
  have i: "hub_inv h" and p: "\<forall>c' \<in> P. clients h c' = None \<and> openAt h c'"
    using assms(1) sys_receive(1) by (simp_all add: sys_inv_def)
  have g: "\<forall>c'. Receive c = Register c' \<longrightarrow> openAt h c'" by simp
  from step_spec[OF i sys_receive(4) g] obtain h' where
    h': "r' = Inr h'" "hub_inv h'"
    and fr: "\<forall>c'. clients h c' = None \<longrightarrow> Receive c \<noteq> Register c' \<longrightarrow>
                  clients h' c' = None \<and> (openAt h c' \<longrightarrow> openAt h' c')"
    by blast
  have "sys_inv (h', P)"
    using h'(2) p fr by (simp add: sys_inv_def)
  then show ?thesis using sys_receive(3) h'(1) by (simp add: carry_def)
qed

lemma sys_run_spec:
  "sys_inv s \<Longrightarrow> sys_run s acts r \<Longrightarrow> \<exists>s'. r = Inr s' \<and> sys_inv s'"
proof (induction acts arbitrary: s)
  case Nil
  from Nil.prems(2) show ?case
    using Nil.prems(1) by (cases rule: sys_run.cases) simp_all
next
  case (Cons a acts)
  from Cons.prems(2) show ?case
  proof (cases rule: sys_run.cases)
    case (run_panic p)
    from sys_step_spec[OF Cons.prems(1) run_panic(2)] show ?thesis by simp
  next
    case (run_cons s1)
    from sys_step_spec[OF Cons.prems(1) run_cons(1)] have "sys_inv s1" by simp
    from Cons.IH[OF this run_cons(2)] show ?thesis .
  qed
qed

lemma sys_inv_start: "sys_inv (newHub Map.empty, {})"
  by (simp add: sys_inv_def hub_inv_def newHub_def)

text \<open>
  C4. Started with every registered client's queue open, as the new hub is, whatever
  the endpoints and the ingestion handler send and in whatever order, the hub never
  panics and stays in such a state: no queue is closed a second time. An unregister
  request for a client that is not in the set returns the state unchanged (no close,
  no delete). A registered client with a full queue is removed and its queue closed
  by a broadcast, and an unregister request for it after that returns the state
  unchanged.
\<close>

theorem queue_closed_at_most_once:
  assumes "sys_inv s" and "sys_run s acts r"
  shows "(\<exists>s'. r = Inr s' \<and> sys_inv s')
       \<and> r \<noteq> Inl CloseOfClosedChannel
       \<and> sys_inv (newHub Map.empty, {})
       \<and> (\<forall>h0 c. clients h0 c = None \<longrightarrow> unregister c h0 = Inr h0)
       \<and> (\<forall>h0 m h1 c. hub_inv h0 \<longrightarrow> step h0 (Broadcast m) (Inr h1) \<longrightarrow> clients h0 c \<noteq> None \<longrightarrow>
             (\<forall>cl. objs h0 c = Some cl \<longrightarrow> \<not> hasRoom cl) \<longrightarrow>
             clients h1 c = None \<and> \<not> openAt h1 c \<and> unregister c h1 = Inr h1)"
proof -
  from sys_run_spec[OF assms] obtain s' where s': "r = Inr s'" "sys_inv s'" by blast
  have R: "\<exists>s'. r = Inr s' \<and> sys_inv s'" using s' by blast
  have N: "r \<noteq> Inl CloseOfClosedChannel" using s'(1) by simp
  have U: "\<forall>h0 c. clients h0 c = None \<longrightarrow> unregister c h0 = Inr h0"
    by (simp add: unregister_absent)
  have B: "clients h1 c = None \<and> \<not> openAt h1 c \<and> unregister c h1 = Inr h1"
    if i: "hub_inv h0" and s: "step h0 (Broadcast m) (Inr h1)" and reg: "clients h0 c \<noteq> None"
      and full: "\<forall>cl. objs h0 c = Some cl \<longrightarrow> \<not> hasRoom cl" for h0 m h1 c
  proof -
    from i reg obtain cl where cl: "objs h0 c = Some cl"
      by (auto simp: hub_inv_def openAt_def)
    from s obtain ks where ks: "distinct ks" "set ks = dom (clients h0)"
      and r: "Inr h1 = broadcastLoop m ks h0"
      by (cases rule: step.cases) auto
    from broadcastLoop_spec[OF i ks(1), of m] ks(2) r
    have "\<forall>c cl. c \<in> set ks \<longrightarrow> objs h0 c = Some cl \<longrightarrow>
           (if hasRoom cl then clients h1 c = clients h0 c \<and> objs h1 c = Some (delivered m cl)
            else clients h1 c = None \<and> objs h1 c = Some (dropped cl))"
      by auto
    moreover have "c \<in> set ks" using reg ks(2) by (auto simp: dom_def)
    ultimately have "clients h1 c = None \<and> objs h1 c = Some (dropped cl)"
      using cl full by auto
    then show ?thesis by (simp add: unregister_absent openAt_def dropped_def)
  qed
  then have B': "\<forall>h0 m h1 c. hub_inv h0 \<longrightarrow> step h0 (Broadcast m) (Inr h1) \<longrightarrow> clients h0 c \<noteq> None \<longrightarrow>
             (\<forall>cl. objs h0 c = Some cl \<longrightarrow> \<not> hasRoom cl) \<longrightarrow>
             clients h1 c = None \<and> \<not> openAt h1 c \<and> unregister c h1 = Inr h1"
    by (intro allI impI)
  show ?thesis
    by (rule conjI[OF R conjI[OF N conjI[OF sys_inv_start conjI[OF U B']]]])
qed

lemma exReg_steps:
  "register 1 exReg0 = Inr exReg1" "unregister 1 exReg1 = Inr exReg2"
  "unregister 1 exReg2 = Inr exReg2"
  by (simp_all add: exReg0_def exReg1_def exReg2_def newHub_def register_def
        unregister_def closeChan_def newClient_def makeChan_def dropped_def)

lemma exReg_create:
  "(newHub Map.empty)\<lparr>objs := (objs (newHub Map.empty))(1 \<mapsto> newClient ''10.0.0.1:4000'')\<rparr> = exReg0"
  by (simp add: exReg0_def newHub_def)

lemma exReg_run:
  "sys_run (newHub Map.empty, {})
     [Create 1 ''10.0.0.1:4000'', Request (Register 1), Request (Unregister 1),
      Request (Unregister 1)]
     (Inr (exReg2, {}))"
proof -
  have "objs (newHub Map.empty) 1 = None" by (simp add: newHub_def)
  from sys_create[OF this, of "{}" "''10.0.0.1:4000''"]
  have a1: "sys_step (newHub Map.empty, {}) (Create 1 ''10.0.0.1:4000'') (Inr (exReg0, {1}))"
    by (simp only: exReg_create)
  have "step exReg0 (Register 1) (Inr exReg1)"
    using step_register[of exReg0 1] by (simp only: exReg_steps)
  from sys_register[OF _ this, of "{1}"]
  have a2: "sys_step (exReg0, {1}) (Request (Register 1)) (Inr (exReg1, {}))"
    by (simp add: carry_def)
  have "step exReg1 (Unregister 1) (Inr exReg2)"
    using step_unregister[of exReg1 1] by (simp only: exReg_steps)
  from sys_unregister[OF this, of "{}"]
  have a3: "sys_step (exReg1, {}) (Request (Unregister 1)) (Inr (exReg2, {}))"
    by (simp add: carry_def)
  have "step exReg2 (Unregister 1) (Inr exReg2)"
    using step_unregister[of exReg2 1] by (simp only: exReg_steps)
  from sys_unregister[OF this, of "{}"]
  have a4: "sys_step (exReg2, {}) (Request (Unregister 1)) (Inr (exReg2, {}))"
    by (simp add: carry_def)
  show ?thesis
    by (rule run_cons[OF a1], rule run_cons[OF a2], rule run_cons[OF a3],
        rule run_cons[OF a4], rule run_nil)
qed

lemma exHub_run:
  "sys_run (exHub, {}) [Request (Broadcast ''msg''), Request (Unregister 1)]
     (Inr (exHubAfter, {}))"
proof -
  from sys_broadcast[OF exHub_step, of "{}"]
  have a1: "sys_step (exHub, {}) (Request (Broadcast ''msg'')) (Inr (exHubAfter, {}))"
    by (simp add: carry_def)
  have "clients exHubAfter 1 = None" by (simp add: exHubAfter_def)
  then have "unregister 1 exHubAfter = Inr exHubAfter" by (rule unregister_absent)
  then have "step exHubAfter (Unregister 1) (Inr exHubAfter)"
    using step_unregister[of exHubAfter 1] by (simp only:)
  from sys_unregister[OF this, of "{}"]
  have a2: "sys_step (exHubAfter, {}) (Request (Unregister 1)) (Inr (exHubAfter, {}))"
    by (simp add: carry_def)
  show ?thesis
    by (rule run_cons[OF a1], rule run_cons[OF a2], rule run_nil)
qed

theorem queue_closed_at_most_once_witness:
  "sys_inv (newHub Map.empty, {})
   \<and> sys_run (newHub Map.empty, {})
       [Create 1 ''10.0.0.1:4000'', Request (Register 1), Request (Unregister 1),
        Request (Unregister 1)]
       (Inr (exReg2, {}))
   \<and> sys_inv (exReg2, {})
   \<and> sys_inv (exHub, {})
   \<and> sys_run (exHub, {}) [Request (Broadcast ''msg''), Request (Unregister 1)]
       (Inr (exHubAfter, {}))
   \<and> sys_inv (exHubAfter, {})
   \<and> clients exHub 1 \<noteq> None \<and> clients exHubAfter 1 = None \<and> \<not> openAt exHubAfter 1"
proof -
  have i2: "sys_inv (exHub, {})" using exHub_inv by (simp add: sys_inv_def)
  from queue_closed_at_most_once[OF sys_inv_start exReg_run]
  have w1: "sys_inv (exReg2, {})" by simp
  note T = queue_closed_at_most_once[OF i2 exHub_run]
  from T have w2: "sys_inv (exHubAfter, {})" by simp
  have reg: "clients exHub 1 \<noteq> None" "\<forall>cl. objs exHub 1 = Some cl \<longrightarrow> \<not> hasRoom cl"
    by (simp_all add: exHub_def exFull_def hasRoom_def)
  from T have "\<forall>h0 m h1 c. hub_inv h0 \<longrightarrow> step h0 (Broadcast m) (Inr h1) \<longrightarrow> clients h0 c \<noteq> None \<longrightarrow>
             (\<forall>cl. objs h0 c = Some cl \<longrightarrow> \<not> hasRoom cl) \<longrightarrow>
             clients h1 c = None \<and> \<not> openAt h1 c \<and> unregister c h1 = Inr h1"
    by (elim conjE)
  then have "hub_inv exHub \<longrightarrow> step exHub (Broadcast ''msg'') (Inr exHubAfter) \<longrightarrow> clients exHub 1 \<noteq> None \<longrightarrow>
             (\<forall>cl. objs exHub 1 = Some cl \<longrightarrow> \<not> hasRoom cl) \<longrightarrow>
             clients exHubAfter 1 = None \<and> \<not> openAt exHubAfter 1 \<and> unregister 1 exHubAfter = Inr exHubAfter"
    by (elim allE)
  with exHub_inv exHub_step reg
  have w3: "clients exHubAfter 1 = None \<and> \<not> openAt exHubAfter 1" by (elim impE conjE) (assumption+, rule conjI)
  show ?thesis
    by (rule conjI[OF sys_inv_start conjI[OF exReg_run conjI[OF w1 conjI[OF i2 conjI[OF exHub_run conjI[OF w2 conjI[OF reg(1) w3]]]]]]])
qed

end
